theory Spec2Isabelle
  imports Complex_Main "HOL-Library.Multiset" "HOL-Library.Sublist" "HOL-Library.AList"
    "HOL-Library.Log_Nat"
begin

section \<open>Errors\<close>

text \<open>
  Every exception the modelled Python code can raise is a value. The first seven are
  Python's built-in exceptions, raised by \<^verbatim>\<open>min\<close> of an empty set, a missing dictionary key,
  an index out of range, an operation on the wrong type, an undefined name, a failed
  \<^verbatim>\<open>assert\<close> and a division by zero. The last two are error names that only the
  specification uses; no path of the source constructs them.
\<close>

datatype py_error =
    ValueError | KeyError | IndexError | TypeError | NameError
  | AssertionError | ZeroDivisionError
  | InvalidChordError | RangeTooNarrowError

section \<open>Chord (music.py)\<close>

text \<open>
  A chord object is its attribute \<^verbatim>\<open>self.pitches\<close>, a list of integer scale degrees.
  The constructor is the only place that creates one:
  \<^verbatim>\<open>
    pitches = set(pitches)
    root = min(pitches)
    self.pitches = sorted(pitches, key=lambda x: (x-root)%7)
    self.pitches = [(p-root)%7+root for p in self.pitches]
  \<close>
  \<^verbatim>\<open>set\<close> removes duplicates (\<open>remdups\<close>); \<^verbatim>\<open>min\<close> of the empty set raises
  ValueError. Python's \<^verbatim>\<open>%\<close> with a positive modulus is HOL's \<open>mod\<close> on \<open>int\<close>.
  The order in which \<^verbatim>\<open>sorted\<close> leaves pitches of equal key depends on the iteration order
  of the set, but such pitches are mapped to the same value by the last line, so the
  resulting list does not depend on it.
\<close>

type_synonym chord = "int list"

definition Chord :: "int list \<Rightarrow> py_error + chord" where
  "Chord pitches =
     (let ps = remdups pitches in
      if ps = [] then Inl ValueError
      else
        let root = Min (set ps) in
        Inr (map (\<lambda>p. (p - root) mod 7 + root)
                 (sort_key (\<lambda>x. (x - root) mod 7) ps)))"

definition scale_intervals :: "chord \<Rightarrow> int list" where
  "scale_intervals c = (let root = hd c in map (\<lambda>p. p - root) c)"

text \<open>Python's \<^verbatim>\<open>min(xs, key=f)\<close> returns the first element whose key is minimal.\<close>

fun min_key_from :: "('a \<Rightarrow> int) \<Rightarrow> 'a \<Rightarrow> 'a list \<Rightarrow> 'a" where
  "min_key_from f m [] = m"
| "min_key_from f m (x # xs) = min_key_from f (if f x < f m then x else m) xs"

definition min_key :: "('a \<Rightarrow> int) \<Rightarrow> 'a list \<Rightarrow> 'a" where
  "min_key f xs = min_key_from f (hd xs) (tl xs)"

text \<open>The circular distance that \<^verbatim>\<open>nearest\<close> minimises, its \<^verbatim>\<open>key\<close> lambda.\<close>

definition circ_dist :: "int \<Rightarrow> int \<Rightarrow> int" where
  "circ_dist mod_out x = min \<bar>x - mod_out\<bar> (7 - \<bar>x - mod_out\<bar>)"

text \<open>
  \<^verbatim>\<open>
    mod_out = (pitch - self.pitches[0]) % 7
    mod_in = min(self.scale_intervals(), key=lambda x: min(abs(x-mod_out), 7-abs(x-mod_out)))
    mod = mod_in - mod_out
    if abs(mod) > 3.5:
        mod += 7
    return pitch + mod
  \<close>
  The comparison with 3.5 is written on integers as \<open>7 < 2 * \<bar>mod\<bar>\<close>.
\<close>

definition nearest :: "chord \<Rightarrow> int \<Rightarrow> int" where
  "nearest c pitch =
     (let mod_out = (pitch - hd c) mod 7;
          mod_in = min_key (circ_dist mod_out) (scale_intervals c);
          m = mod_in - mod_out;
          m = (if 7 < 2 * \<bar>m\<bar> then m + 7 else m)
      in pitch + m)"

text \<open>Python's \<^verbatim>\<open>list.index\<close>: the first position of a value, ValueError when absent.\<close>

fun index_of :: "'a list \<Rightarrow> 'a \<Rightarrow> nat option" where
  "index_of [] y = None"
| "index_of (x # xs) y = (if x = y then Some 0 else map_option Suc (index_of xs y))"

text \<open>
  \<^verbatim>\<open>
    previous = self.nearest(previous)
    deltas = self.scale_intervals()
    prev = (previous - self.pitches[0])%7
    prev_ix = deltas.index(prev)
    octs = ((prev_ix+change)//len(deltas))
    return deltas[(prev_ix+change)%len(deltas)]+previous-prev+7*octs
  \<close>
  Python's \<^verbatim>\<open>//\<close> is floor division, HOL's \<open>div\<close> on \<open>int\<close>.
\<close>

definition next_pitch :: "chord \<Rightarrow> int \<Rightarrow> int \<Rightarrow> py_error + int" where
  "next_pitch c previous change =
     (let previous = nearest c previous;
          deltas = scale_intervals c;
          prev = (previous - hd c) mod 7
      in case index_of deltas prev of
           None \<Rightarrow> Inl ValueError
         | Some prev_ix \<Rightarrow>
             let octs = (int prev_ix + change) div int (length deltas)
             in Inr (deltas ! nat ((int prev_ix + change) mod int (length deltas))
                       + previous - prev + 7 * octs))"

text \<open>
  \<^verbatim>\<open>__eq__\<close> compares the lengths, the roots modulo 7 and the offsets from the root at
  every position from 1 on.
\<close>

definition chord_eq :: "chord \<Rightarrow> chord \<Rightarrow> bool" where
  "chord_eq c d =
     (if length c \<noteq> length d then False
      else if hd c mod 7 \<noteq> hd d mod 7 then False
      else if list_all (\<lambda>i. c ! i - c ! 0 = d ! i - d ! 0) [1 ..< length c] then True
      else False)"

text \<open>
  \<^verbatim>\<open>__hash__\<close> hashes the tuple \<^verbatim>\<open>tuple(p + mod for p in self.pitches)\<close> with
  \<^verbatim>\<open>mod = self.pitches[0] % 7 - self.pitches[0]\<close>. The hash of a tuple of integers is a
  function of the tuple, so the model returns the tuple that is hashed: equal tuples have
  equal hashes.
\<close>

definition chord_hash :: "chord \<Rightarrow> int list" where
  "chord_hash c = (let m = hd c mod 7 - hd c in map (\<lambda>p. p + m) c)"

text \<open>What the constructor establishes: a root at the head, every member within the
  octave band that starts at the root.\<close>

definition chord_inv :: "chord \<Rightarrow> bool" where
  "chord_inv c = (c \<noteq> [] \<and> list_all (\<lambda>p. hd c \<le> p \<and> p < hd c + 7) c)"

text \<open>
  The pitch that \<^verbatim>\<open>Progression.skeleton\<close> appends for a played token, once the interval
  is drawn:
  \<^verbatim>\<open>
    note = chd._next_pitch(pre, next_interval)
    if note > max_pitch:
        note = chd._next_pitch(pre, -+next_interval)
    elif note < min_pitch:
        note = chd._next_pitch(pre, +next_interval)
  \<close>
  \<^verbatim>\<open>-+x\<close> is \<open>- x\<close> and \<^verbatim>\<open>+x\<close> is \<open>x\<close>.
\<close>

definition skeleton_note :: "chord \<Rightarrow> int \<Rightarrow> int \<Rightarrow> int \<Rightarrow> int \<Rightarrow> py_error + int" where
  "skeleton_note chd pre next_interval min_pitch max_pitch =
     (case next_pitch chd pre next_interval of
        Inl e \<Rightarrow> Inl e
      | Inr note \<Rightarrow>
          if note > max_pitch then next_pitch chd pre (- next_interval)
          else if note < min_pitch then next_pitch chd pre next_interval
          else Inr note)"

section \<open>Python numbers\<close>

text \<open>
  A Python \<^verbatim>\<open>float\<close> is an IEEE double. Every finite double is a rational number, and the
  result of a float operation is the exact result rounded to the nearest double, ties to
  the even significand. \<open>round53\<close> is that rounding on rationals: it keeps 53 significant
  bits. The exponent range of doubles is not modelled (no overflow, underflow or
  subnormal numbers, no infinities or NaN).
\<close>

definition pow2 :: "int \<Rightarrow> rat" where
  "pow2 e = (if e \<ge> 0 then 2 ^ nat e else 1 / 2 ^ nat (- e))"

definition round_half_even :: "rat \<Rightarrow> int" where
  "round_half_even m =
     (let f = \<lfloor>m\<rfloor>; d = m - of_int f
      in if d < 1 / 2 then f else if d > 1 / 2 then f + 1 else if even f then f else f + 1)"

definition binary_exponent :: "rat \<Rightarrow> int \<Rightarrow> int" where
  "binary_exponent a e0 = (if pow2 e0 \<le> a then e0 else e0 - 1)"

definition round_to :: "rat \<Rightarrow> rat \<Rightarrow> rat" where
  "round_to ulp q = sgn q * of_int (round_half_even (\<bar>q\<bar> / ulp)) * ulp"

text \<open>
  For \<open>\<bar>q\<bar> = n / d\<close> the binary exponent \<open>e\<close> with \<open>2 ^ e \<le> \<bar>q\<bar> < 2 ^ (e + 1)\<close> is the
  difference of the bit lengths of \<open>n\<close> and \<open>d\<close> or one less; the unit in the last place
  is \<open>2 ^ (e - 52)\<close>.
\<close>

definition round53 :: "rat \<Rightarrow> rat" where
  "round53 q =
     (if q = 0 then 0
      else case quotient_of \<bar>q\<bar> of
             (n, d) \<Rightarrow> round_to (pow2 (binary_exponent \<bar>q\<bar> (bitlen n - bitlen d) - 52)) q)"

text \<open>
  A number is an \<^verbatim>\<open>int\<close> (unbounded, exact) or a \<^verbatim>\<open>float\<close>. Adding two ints is exact;
  when a float takes part, the int is converted to a float and the sum is rounded.
  Comparisons between numbers compare their exact values.
\<close>

datatype pynum = PInt int | PFloat rat

definition num_val :: "pynum \<Rightarrow> rat" where
  "num_val x = (case x of PInt i \<Rightarrow> of_int i | PFloat q \<Rightarrow> q)"

definition to_float :: "pynum \<Rightarrow> rat" where
  "to_float x = (case x of PInt i \<Rightarrow> round53 (of_int i) | PFloat q \<Rightarrow> q)"

definition py_add :: "pynum \<Rightarrow> pynum \<Rightarrow> pynum" where
  "py_add x y =
     (case (x, y) of
        (PInt a, PInt b) \<Rightarrow> PInt (a + b)
      | _ \<Rightarrow> PFloat (round53 (to_float x + to_float y)))"

text \<open>
  Float operations on exact values: the exact result, rounded. Where the code computes
  with ints instead, the result is the same as long as it stays below \<open>2 ^ 53\<close>.
\<close>

definition fl_add :: "rat \<Rightarrow> rat \<Rightarrow> rat" where
  "fl_add a b = round53 (a + b)"

definition fl_mul :: "rat \<Rightarrow> rat \<Rightarrow> rat" where
  "fl_mul a b = round53 (a * b)"

definition fl_div :: "rat \<Rightarrow> rat \<Rightarrow> rat" where
  "fl_div a b = round53 (a / b)"

section \<open>Biases (util.py)\<close>

text \<open>
  The sampler is generic in the type of its conditions and of its outcomes, and its code
  is dynamically typed: \<^verbatim>\<open>get\<close> uses condition keys as outcomes and as numbers. The
  model therefore works on one type of Python values: numbers, strings and tuples. Python's
  \<^verbatim>\<open>int\<close> and \<^verbatim>\<open>float\<close> are both \<open>Num\<close>, a number given by its exact value (they
  compare and hash equal when they denote the same number). Weights and probabilities are
  numbers too, and every arithmetic step of \<^verbatim>\<open>get\<close> is a float operation: the exact result,
  rounded.

  A \<^verbatim>\<open>dict\<close> is an association list with distinct keys in insertion order, which is the
  order Python iterates in; \<open>map_of\<close> looks a key up.
\<close>

datatype pyval = Num rat | Str string | Tuple "pyval list"

type_synonym 'v dict = "(pyval \<times> 'v) list"

text \<open>\<^verbatim>\<open>self.biases\<close>: one table per order, each from a condition key to a row of weights.\<close>

type_synonym biases = "rat dict dict list"

text \<open>\<^verbatim>\<open>self.biases = [biases if biases else {}]\<close>\<close>

definition Biases :: "rat dict dict \<Rightarrow> biases" where
  "Biases b = [b]"

subsection \<open>random.choices\<close>

text \<open>
  \<^verbatim>\<open>choices(population, weights)\<close> belongs to Python's standard library (the code of
  Python 3.9 and later is followed here):
  \<^verbatim>\<open>
    n = len(population)
    cum_weights = list(_accumulate(weights))
    if len(cum_weights) != n:
        raise ValueError
    total = cum_weights[-1] + 0.0
    if total <= 0.0:
        raise ValueError
    hi = n - 1
    return [population[bisect(cum_weights, random() * total, 0, hi)]]
  \<close>
  \<^verbatim>\<open>accumulate\<close> yields the first weight and then the running float sums;
  \<^verbatim>\<open>cum_weights[-1]\<close> raises IndexError on an empty list; \<^verbatim>\<open>bisect\<close> is the binary
  search \<^verbatim>\<open>bisect_right\<close>:
  \<^verbatim>\<open>
    while lo < hi:
        mid = (lo + hi) // 2
        if x < a[mid]: hi = mid
        else: lo = mid + 1
    return lo
  \<close>
  The value of the one \<^verbatim>\<open>random()\<close> call is the argument \<open>u\<close>.
\<close>

fun accumulate_from :: "rat \<Rightarrow> rat list \<Rightarrow> rat list" where
  "accumulate_from acc [] = []"
| "accumulate_from acc (w # ws) = fl_add acc w # accumulate_from (fl_add acc w) ws"

definition accumulate :: "rat list \<Rightarrow> rat list" where
  "accumulate weights = (case weights of [] \<Rightarrow> [] | w # ws \<Rightarrow> w # accumulate_from w ws)"

function bisect :: "rat list \<Rightarrow> rat \<Rightarrow> nat \<Rightarrow> nat \<Rightarrow> nat" where
  "bisect a x lo hi =
     (if lo < hi then
        (let mid = (lo + hi) div 2
         in if x < a ! mid then bisect a x lo mid else bisect a x (mid + 1) hi)
      else lo)"
  by pat_completeness auto
termination
  by (relation "measure (\<lambda>(a, x, lo, hi). hi - lo)") auto

declare bisect.simps [simp del]

definition choices :: "'a list \<Rightarrow> rat list \<Rightarrow> rat \<Rightarrow> py_error + 'a" where
  "choices population weights u =
     (let n = length population;
          cum_weights = accumulate weights
      in if length cum_weights \<noteq> n then Inl ValueError
         else if cum_weights = [] then Inl IndexError
         else
           let total = fl_add (last cum_weights) 0
           in if total \<le> 0 then Inl ValueError
              else Inr (population ! bisect cum_weights (fl_mul u total) 0 (n - 1)))"

subsection \<open>get\<close>

text \<open>
  The innermost loop of \<^verbatim>\<open>get\<close>:
  \<^verbatim>\<open>
    for k, b in self.biases:
        probs[k] += b * deg / total / sm
  \<close>
  It iterates over the list of order tables. Unpacking a table (a dict) into \<^verbatim>\<open>k, b\<close>
  iterates over its keys and raises ValueError unless there are exactly two. Then
  \<^verbatim>\<open>probs[k]\<close> is read: a missing key is 0 when \<^verbatim>\<open>probs\<close> is the \<^verbatim>\<open>defaultdict\<close> and
  raises KeyError when it is still the plain \<^verbatim>\<open>{}\<close>. The right-hand side raises
  TypeError unless \<^verbatim>\<open>b\<close> is a number, and ZeroDivisionError when a divisor is zero.
\<close>

fun blend_tables ::
  "rat dict \<Rightarrow> bool \<Rightarrow> rat \<Rightarrow> rat \<Rightarrow> rat \<Rightarrow> rat dict dict list \<Rightarrow> py_error + rat dict" where
  "blend_tables probs dflt deg tot sm [] = Inr probs"
| "blend_tables probs dflt deg tot sm (tb # tbs) =
     (case map fst tb of
        [k, b] \<Rightarrow>
          (case (if dflt then Some (case map_of probs k of None \<Rightarrow> 0 | Some p \<Rightarrow> p)
                 else map_of probs k) of
             None \<Rightarrow> Inl KeyError
           | Some old \<Rightarrow>
               (case b of
                  Num bq \<Rightarrow>
                    if tot = 0 \<or> sm = 0 then Inl ZeroDivisionError
                    else blend_tables
                           (AList.update k (fl_add old (fl_div (fl_div (fl_mul bq deg) tot) sm)) probs)
                           dflt deg tot sm tbs
                | _ \<Rightarrow> Inl TypeError))
      | _ \<Rightarrow> Inl ValueError)"

text \<open>
  The loop of \<^verbatim>\<open>get\<close> over \<^verbatim>\<open>enumerate(cond[::-1])\<close>:
  \<^verbatim>\<open>
    hist = (e,) + hist
    if i == 0 and e in self.biases[0]:
        sm = sum(self.biases[0][e].values())
        probs = defaultdict(lambda: 0, {k: p/sm for k, p in self.biases[0][e].items()})
        total = deg_rate(0)
    elif i >= len(self.biases):
        break
    elif hist in self.biases[i]:
        sm = sum(self.biases[i][hist].values())
        deg = deg_rate(i)
        for k in probs:
            probs[k] *= total / (total + deg)
        total += deg
        for k, b in self.biases:
            probs[k] += b * deg / total / sm
  \<close>
  The arguments are the index \<open>i\<close>, the conditions still to visit, and the variables
  \<^verbatim>\<open>probs\<close> (with the flag \<open>dflt\<close>: it is the \<^verbatim>\<open>defaultdict\<close>), \<^verbatim>\<open>hist\<close> and
  \<^verbatim>\<open>tot\<close>; the result is the final \<^verbatim>\<open>probs\<close>.
\<close>

fun get_loop ::
  "biases \<Rightarrow> (nat \<Rightarrow> rat) \<Rightarrow> nat \<Rightarrow> pyval list \<Rightarrow> rat dict \<Rightarrow> bool \<Rightarrow> pyval list \<Rightarrow> rat
     \<Rightarrow> py_error + rat dict" where
  "get_loop bs deg_rate i [] probs dflt hist tot = Inr probs"
| "get_loop bs deg_rate i (e # es) probs dflt hist tot =
     (let hist = e # hist in
      if i = 0 \<and> bs = [] then Inl IndexError
      else if i = 0 \<and> map_of (bs ! 0) e \<noteq> None then
        (let row = the (map_of (bs ! 0) e);
             sm = foldl fl_add 0 (map snd row)
         in if row \<noteq> [] \<and> sm = 0 then Inl ZeroDivisionError
            else get_loop bs deg_rate (i + 1) es (map (\<lambda>(k, p). (k, fl_div p sm)) row) True hist
                   (deg_rate 0))
      else if i \<ge> length bs then Inr probs
      else if map_of (bs ! i) (Tuple hist) \<noteq> None then
        (let row = the (map_of (bs ! i) (Tuple hist));
             sm = foldl fl_add 0 (map snd row);
             deg = deg_rate i
         in if probs \<noteq> [] \<and> fl_add tot deg = 0 then Inl ZeroDivisionError
            else
              let probs = map (\<lambda>(k, p). (k, fl_mul p (fl_div tot (fl_add tot deg)))) probs;
                  tot = fl_add tot deg
              in case blend_tables probs dflt deg tot sm bs of
                   Inl err \<Rightarrow> Inl err
                 | Inr probs \<Rightarrow> get_loop bs deg_rate (i + 1) es probs dflt hist tot)
      else get_loop bs deg_rate (i + 1) es probs dflt hist tot)"

text \<open>
  \<^verbatim>\<open>get(*cond, deg_rate)\<close> ends with \<^verbatim>\<open>return choices(keys, bias)[0]\<close> on the keys and
  values of \<^verbatim>\<open>probs\<close>. The argument \<open>u\<close> is the value of the one \<^verbatim>\<open>random()\<close> call.
\<close>

definition get :: "biases \<Rightarrow> pyval list \<Rightarrow> (nat \<Rightarrow> rat) \<Rightarrow> rat \<Rightarrow> py_error + pyval" where
  "get bs cond deg_rate u =
     (case get_loop bs deg_rate 0 (rev cond) [] False [] 0 of
        Inl err \<Rightarrow> Inl err
      | Inr probs \<Rightarrow> choices (map fst probs) (map snd probs) u)"

subsection \<open>add_bias\<close>

text \<open>
  \<^verbatim>\<open>
    while len(cond) > len(self.biases):
        self.biases.append({})
    if len(cond) > 1:
        self.biases[len(cond)-1][tuple(cond)][bias] = weight
    else:
        self.biases[0][cond[0]][bias] = weight
  \<close>
  The tables are plain dicts: reading the row of a condition that has none raises
  KeyError. The model returns the updated \<^verbatim>\<open>self.biases\<close>.
\<close>

definition add_bias :: "biases \<Rightarrow> pyval \<Rightarrow> rat \<Rightarrow> pyval list \<Rightarrow> py_error + biases" where
  "add_bias bs bias weight cond =
     (let bs = bs @ replicate (length cond - length bs) [] in
      if length cond > 1 then
        (case map_of (bs ! (length cond - 1)) (Tuple cond) of
           None \<Rightarrow> Inl KeyError
         | Some row \<Rightarrow>
             Inr (bs[length cond - 1 :=
                    AList.update (Tuple cond) (AList.update bias weight row)
                      (bs ! (length cond - 1))]))
      else if bs = [] \<or> cond = [] then Inl IndexError
      else
        (case map_of (bs ! 0) (cond ! 0) of
           None \<Rightarrow> Inl KeyError
         | Some row \<Rightarrow>
             Inr (bs[0 := AList.update (cond ! 0) (AList.update bias weight row) (bs ! 0)])))"

section \<open>Rhythm tokens (util.py, music.py)\<close>

text \<open>
  \<^verbatim>\<open>NOTE_LENS\<close> maps a rhythm token (one character) to its duration in quarter-note beats.
  The source writes some durations as ints and the others as floats. \<^verbatim>\<open>(1/3)\<close> and
  \<^verbatim>\<open>(2/3)\<close> are float divisions: their values are the doubles nearest to one third and
  two thirds, written out here (\<open>NOTE_LENS_triplets\<close> below checks them).
\<close>

definition NOTE_LENS :: "(char \<times> pynum) list" where
  "NOTE_LENS =
     [(CHR ''w'', PInt 4), (CHR ''H'', PInt 3), (CHR ''h'', PInt 2), (CHR ''Q'', PFloat (3 / 2)),
      (CHR ''q'', PInt 1), (CHR ''E'', PFloat (3 / 4)), (CHR ''e'', PFloat (1 / 2)),
      (CHR ''s'', PFloat (1 / 4)), (CHR ''t'', PFloat (6004799503160661 / 18014398509481984)),
      (CHR ''T'', PFloat (6004799503160661 / 9007199254740992)), (CHR '' '', PInt 1), (CHR ''.'', PFloat (1 / 2)),
      (CHR ''_'', PInt 2), (CHR '','', PFloat (1 / 4)), (CHR ''-'', PInt 4),
      (CHR ''G'', PFloat (1 / 8)), (CHR ''g'', PInt 0), (CHR ''1'', PFloat (5 / 4)),
      (CHR ''2'', PFloat (7 / 4)), (CHR ''3'', PFloat (9 / 4)), (CHR ''4'', PFloat (5 / 2)),
      (CHR ''5'', PFloat (11 / 4)), (CHR ''6'', PFloat (13 / 4)), (CHR ''7'', PFloat (7 / 2)),
      (CHR ''8'', PFloat (15 / 4))]"

text \<open>
  \<^verbatim>\<open>
    dur = 0
    for r in rhythm:
        dur += NOTE_LENS[r]
    return dur
  \<close>
  A token that is not a key of the table raises KeyError. The additions are Python's: the
  running sum is rounded after every step once a float has entered it.
\<close>

fun duration_from :: "pynum \<Rightarrow> string \<Rightarrow> py_error + pynum" where
  "duration_from dur [] = Inr dur"
| "duration_from dur (r # rhythm) =
     (case map_of NOTE_LENS r of
        None \<Rightarrow> Inl KeyError
      | Some l \<Rightarrow> duration_from (py_add dur l) rhythm)"

definition duration :: "string \<Rightarrow> py_error + pynum" where
  "duration rhythm = duration_from (PInt 0) rhythm"

text \<open>The rest tokens: the test \<^verbatim>\<open>r in "_- ,."\<close> the source makes on a character
  (the source writes the same five characters in several orders).\<close>

definition is_rest :: "char \<Rightarrow> bool" where
  "is_rest r = (r \<in> set ''_- ,.'')"

text \<open>\<^verbatim>\<open>sum(0 if r in "_- ,." else 1 for r in rhythm)\<close>\<close>

definition count_notes :: "string \<Rightarrow> nat" where
  "count_notes rhythm = sum_list (map (\<lambda>r. if is_rest r then 0 else 1) rhythm)"

section \<open>Part (music.py)\<close>

text \<open>
  A part has the two documented attributes \<^verbatim>\<open>notes\<close> and \<^verbatim>\<open>rhythms\<close>. Its notes are
  integers in a melody and lists of integers in a chord background, hence the type
  parameter. The constructor also stores \<^verbatim>\<open>chd_lens\<close>, \<^verbatim>\<open>min_note\<close> and
  \<^verbatim>\<open>max_note\<close>; no operation modelled here reads them, but when \<^verbatim>\<open>chd_lens\<close> is not given
  (or is empty) the constructor computes it from \<^verbatim>\<open>duration(self.rhythms)\<close>, which raises
  KeyError on an unknown token.
\<close>

record 'a part =
  "notes" :: "'a list"
  rhythms :: string

definition Part :: "'a list \<Rightarrow> string \<Rightarrow> py_error + 'a part" where
  "Part ns rs =
     (case duration rs of
        Inl e \<Rightarrow> Inl e
      | Inr d \<Rightarrow> Inr \<lparr>notes = ns, rhythms = rs\<rparr>)"

subsection \<open>clip\<close>

text \<open>
  \<^verbatim>\<open>
    def clip_pitch(pitch, min_pitch=1, max_pitch=11):
        if pitch < min_pitch:
            return pitch + 7 * ceil((min_pitch-pitch)/7)
        if pitch > max_pitch:
            return pitch - 7 * ceil((pitch-max_pitch)/7)
        else:
            return pitch
  \<close>
  The module imports only \<^verbatim>\<open>log\<close> and \<^verbatim>\<open>exp\<close> from \<^verbatim>\<open>math\<close>, and nothing defines
  \<^verbatim>\<open>ceil\<close>: evaluating either of the first two \<^verbatim>\<open>return\<close> expressions raises NameError.
\<close>

definition clip_pitch :: "int \<Rightarrow> int \<Rightarrow> int \<Rightarrow> py_error + int" where
  "clip_pitch pitch min_pitch max_pitch =
     (if pitch < min_pitch then Inl NameError
      else if pitch > max_pitch then Inl NameError
      else Inr pitch)"

text \<open>A list comprehension over a function that may raise: the first error ends it.\<close>

fun map_result :: "('a \<Rightarrow> py_error + 'b) \<Rightarrow> 'a list \<Rightarrow> py_error + 'b list" where
  "map_result f [] = Inr []"
| "map_result f (x # xs) =
     (case f x of
        Inl e \<Rightarrow> Inl e
      | Inr y \<Rightarrow> (case map_result f xs of Inl e \<Rightarrow> Inl e | Inr ys \<Rightarrow> Inr (y # ys)))"

text \<open>
  \<^verbatim>\<open>
    assert max_pitch >= min_pitch+7
    self.notes = [clip_pitch(p, min_pitch, max_pitch) for p in self.notes]
  \<close>
  The method mutates the part; the model returns the updated part.
\<close>

definition clip :: "int part \<Rightarrow> int \<Rightarrow> int \<Rightarrow> py_error + int part" where
  "clip p min_pitch max_pitch =
     (if \<not> (max_pitch \<ge> min_pitch + 7) then Inl AssertionError
      else case map_result (\<lambda>n. clip_pitch n min_pitch max_pitch) (notes p) of
             Inl e \<Rightarrow> Inl e
           | Inr ns \<Rightarrow> Inr (p\<lparr>notes := ns\<rparr>))"

subsection \<open>measures\<close>

text \<open>
  \<^verbatim>\<open>
    m_notes = []
    m_ryth = ""
    ni = 0
    for r in self.rhythms:
        if r not in "-_ ,.":
            m_notes.append(self.notes[ni])
            ni += 1
        m_ryth += r
        if duration(m_ryth) >= meter:
            yield m_notes, m_ryth
            m_notes = []
            m_ryth = ""
  \<close>
  A generator: the model returns the list of the pairs it yields, together with the error
  that ended it early, if any (IndexError when the notes run out, KeyError from
  \<^verbatim>\<open>duration\<close>). The comparison with \<^verbatim>\<open>meter\<close> is on exact values, as Python compares
  an int with a float.
\<close>

fun measures_loop ::
  "pynum \<Rightarrow> 'a list \<Rightarrow> 'a list \<Rightarrow> string \<Rightarrow> nat \<Rightarrow> string
     \<Rightarrow> ('a list \<times> string) list \<times> py_error option" where
  "measures_loop meter ns m_notes m_ryth ni [] = ([], None)"
| "measures_loop meter ns m_notes m_ryth ni (r # rs) =
     (if \<not> is_rest r \<and> \<not> ni < length ns then ([], Some IndexError)
      else
        let m_notes = (if is_rest r then m_notes else m_notes @ [ns ! ni]);
            ni = (if is_rest r then ni else ni + 1);
            m_ryth = m_ryth @ [r]
        in case duration m_ryth of
             Inl e \<Rightarrow> ([], Some e)
           | Inr d \<Rightarrow>
               if num_val d \<ge> num_val meter then
                 (case measures_loop meter ns [] [] ni rs of
                    (ys, err) \<Rightarrow> ((m_notes, m_ryth) # ys, err))
               else measures_loop meter ns m_notes m_ryth ni rs)"

definition measures :: "'a part \<Rightarrow> pynum \<Rightarrow> ('a list \<times> string) list \<times> py_error option" where
  "measures p meter = measures_loop meter (notes p) [] [] 0 (rhythms p)"

subsection \<open>refine\<close>

text \<open>The default break table of \<^verbatim>\<open>refine\<close>, keyed by one-character strings.\<close>

definition BREAKS :: biases where
  "BREAKS = Biases
     [(Str ''w'', [(Str ''hh'', 1), (Str ''Hq'', 1)]),
      (Str ''H'', [(Str ''hq'', 1)]),
      (Str ''h'', [(Str ''qq'', 4), (Str ''Qe'', 1)]),
      (Str ''Q'', [(Str ''qe'', 1)]),
      (Str ''q'', [(Str ''ee'', 9), (Str ''Es'', 1)]),
      (Str ''E'', [(Str ''es'', 1)]),
      (Str ''e'', [(Str ''ss'', 1)]),
      (Str ''s'', [(Str ''GG'', 1)]),
      (Str ''G'', [(Str ''Gg'', 1)]),
      (Str ''g'', [(Str ''gg'', 1)])]"

text \<open>
  Randomness. \<^verbatim>\<open>refine\<close> and \<^verbatim>\<open>skeleton\<close> call \<^verbatim>\<open>random()\<close> directly and through
  \<^verbatim>\<open>Biases.get\<close>. The values these calls return, in order, are the sequence \<open>rnd\<close>; the
  state carries the number of calls made so far.

  The variables of the loop of \<^verbatim>\<open>refine\<close>: \<^verbatim>\<open>ref.notes\<close>, \<^verbatim>\<open>ref.rhythms\<close>, the counters
  \<^verbatim>\<open>reps\<close>, \<^verbatim>\<open>steps\<close>, \<^verbatim>\<open>leaps\<close>, the indices \<^verbatim>\<open>note_num\<close> and \<^verbatim>\<open>i\<close>.
\<close>

record refine_state =
  rs_notes :: "int list"
  rs_rhythms :: string
  rs_reps :: int
  rs_steps :: int
  rs_leaps :: int
  rs_note_num :: nat
  rs_i :: nat
  rs_draws :: nat

text \<open>
  \<^verbatim>\<open>ref.rhythms[:i] + breaks.get(r) + ref.rhythms[i+1:]\<close> with \<^verbatim>\<open>r = ref.rhythms[i]\<close>;
  concatenating a string with an outcome that is not a string raises TypeError.
\<close>

definition split_token :: "biases \<Rightarrow> string \<Rightarrow> nat \<Rightarrow> rat \<Rightarrow> py_error + string" where
  "split_token breaks ryth i u =
     (case get breaks [Str [ryth ! i]] (\<lambda>n. 1) u of
        Inl err \<Rightarrow> Inl err
      | Inr (Str s) \<Rightarrow> Inr (take i ryth @ s @ drop (i + 1) ryth)
      | Inr _ \<Rightarrow> Inl TypeError)"

text \<open>\<^verbatim>\<open>xs.insert(k, x)\<close>\<close>

definition list_insert :: "'a list \<Rightarrow> nat \<Rightarrow> 'a \<Rightarrow> 'a list" where
  "list_insert xs k x = take k xs @ [x] @ drop k xs"

text \<open>
  One round of the loop, entered when \<^verbatim>\<open>i < len(ref.rhythms)\<close> and
  \<^verbatim>\<open>note_num+1 < len(ref.notes)\<close>:
  \<^verbatim>\<open>
    r = ref.rhythms[i]
    ...
    elif r in " _-.,":
        i += 1
        continue
    else:
        n = ref.notes[note_num]
        note_num += 1
    if n == ref.notes[note_num]:
        threshold = aux_func(reps)
        if random() < threshold:
            aux = n + 1 if random() > 0.5 else n - 1
            ref.notes.insert(note_num, aux)
            ref.rhythms = (ref.rhythms[:i] + breaks.get(r) + ref.rhythms[i+1:])
            reps = 1
        else:
            reps += 1
    elif abs(n - ref.notes[note_num]) > 1:
        threshold = pass_func(steps, leaps)
        if random() < threshold:
            ref.rhythms = (ref.rhythms[:i] + breaks.get(r) + ref.rhythms[i+1:])
            if n > ref.notes[note_num]:
                ref.notes.insert(note_num, n-1)
            else:
                ref.notes.insert(note_num, n+1)
            steps += 1
        else:
            leaps += 1
        reps = 0
    elif abs(n - ref.notes[note_num]) <= 1:
        steps += 1
        reps = 0
    i += 1
  \<close>
  The probability functions \<^verbatim>\<open>pass_func\<close> and \<^verbatim>\<open>aux_func\<close> are parameters; they return
  floats, which are rationals.
\<close>

definition refine_body ::
  "(int \<Rightarrow> int \<Rightarrow> rat) \<Rightarrow> (int \<Rightarrow> rat) \<Rightarrow> biases \<Rightarrow> (nat \<Rightarrow> rat) \<Rightarrow> refine_state
     \<Rightarrow> py_error + refine_state" where
  "refine_body pass_func aux_func breaks rnd st =
     (let r = rs_rhythms st ! rs_i st in
      if is_rest r then Inr (st\<lparr>rs_i := rs_i st + 1\<rparr>)
      else
        let n = rs_notes st ! rs_note_num st;
            note_num = rs_note_num st + 1;
            d = rs_draws st
        in
        if n = rs_notes st ! note_num then
          (let threshold = aux_func (rs_reps st) in
           if rnd d < threshold then
             (let aux = (if rnd (d + 1) > 1 / 2 then n + 1 else n - 1);
                  ns = list_insert (rs_notes st) note_num aux
              in case split_token breaks (rs_rhythms st) (rs_i st) (rnd (d + 2)) of
                   Inl err \<Rightarrow> Inl err
                 | Inr rh \<Rightarrow>
                     Inr (st\<lparr>rs_notes := ns, rs_rhythms := rh, rs_reps := 1,
                             rs_note_num := note_num, rs_i := rs_i st + 1,
                             rs_draws := d + 3\<rparr>))
           else Inr (st\<lparr>rs_reps := rs_reps st + 1, rs_note_num := note_num,
                         rs_i := rs_i st + 1, rs_draws := d + 1\<rparr>))
        else if \<bar>n - rs_notes st ! note_num\<bar> > 1 then
          (let threshold = pass_func (rs_steps st) (rs_leaps st) in
           if rnd d < threshold then
             (case split_token breaks (rs_rhythms st) (rs_i st) (rnd (d + 1)) of
                Inl err \<Rightarrow> Inl err
              | Inr rh \<Rightarrow>
                  let ns = (if n > rs_notes st ! note_num
                            then list_insert (rs_notes st) note_num (n - 1)
                            else list_insert (rs_notes st) note_num (n + 1))
                  in Inr (st\<lparr>rs_notes := ns, rs_rhythms := rh, rs_reps := 0,
                             rs_steps := rs_steps st + 1, rs_note_num := note_num,
                             rs_i := rs_i st + 1, rs_draws := d + 2\<rparr>))
           else Inr (st\<lparr>rs_reps := 0, rs_leaps := rs_leaps st + 1, rs_note_num := note_num,
                         rs_i := rs_i st + 1, rs_draws := d + 1\<rparr>))
        else Inr (st\<lparr>rs_reps := 0, rs_steps := rs_steps st + 1, rs_note_num := note_num,
                      rs_i := rs_i st + 1\<rparr>))"

text \<open>
  The loop:
  \<^verbatim>\<open>
    while i < len(ref.rhythms):
        r = ref.rhythms[i]
        if note_num+1 >= len(ref.notes):
            break
        ...
  \<close>
\<close>

function refine_loop ::
  "(int \<Rightarrow> int \<Rightarrow> rat) \<Rightarrow> (int \<Rightarrow> rat) \<Rightarrow> biases \<Rightarrow> (nat \<Rightarrow> rat) \<Rightarrow> refine_state
     \<Rightarrow> py_error + refine_state" where
  "refine_loop pass_func aux_func breaks rnd st =
     (if rs_i st < length (rs_rhythms st) \<and> \<not> rs_note_num st + 1 \<ge> length (rs_notes st) then
        (case refine_body pass_func aux_func breaks rnd st of
           Inl err \<Rightarrow> Inl err
         | Inr st' \<Rightarrow> refine_loop pass_func aux_func breaks rnd st')
      else Inr st)"
  by pat_completeness auto

text \<open>
  After the loop:
  \<^verbatim>\<open>
    if end_tonic and (ref.notes[-1]-1) % 7 != 0:
        last = (ref.notes[-1]-1)%7
        if last < 4:
            nearest = ref.notes[-1] - last
        else:
            nearest = ref.notes[-1] - last + 7
        if ref.rhythms[-1] in " ,.-_":
            ref.rhythms = (ref.rhythms[:-1] + "qsewh"[" ,.-_".index(ref.rhythms[-1])])
        else:
            ref.rhythms = ref.rhythms[:-1] + breaks.get(ref.rhythms[-1])
        ref.notes.append(nearest)
    return ref
  \<close>
  Indexing an empty list or string with \<^verbatim>\<open>[-1]\<close> raises IndexError.
\<close>

definition end_on_tonic :: "biases \<Rightarrow> (nat \<Rightarrow> rat) \<Rightarrow> refine_state \<Rightarrow> py_error + int part" where
  "end_on_tonic breaks rnd st =
     (if rs_notes st = [] then Inl IndexError
      else if (last (rs_notes st) - 1) mod 7 \<noteq> 0 then
        (let l = (last (rs_notes st) - 1) mod 7;
             nearest = (if l < 4 then last (rs_notes st) - l else last (rs_notes st) - l + 7)
         in if rs_rhythms st = [] then Inl IndexError
            else if is_rest (last (rs_rhythms st)) then
              (case index_of '' ,.-_'' (last (rs_rhythms st)) of
                 None \<Rightarrow> Inl ValueError
               | Some k \<Rightarrow>
                   Inr \<lparr>notes = rs_notes st @ [nearest],
                        rhythms = butlast (rs_rhythms st) @ [''qsewh'' ! k]\<rparr>)
            else
              (case get breaks [Str [last (rs_rhythms st)]] (\<lambda>n. 1) (rnd (rs_draws st)) of
                 Inl err \<Rightarrow> Inl err
               | Inr (Str s) \<Rightarrow>
                   Inr \<lparr>notes = rs_notes st @ [nearest],
                        rhythms = butlast (rs_rhythms st) @ s\<rparr>
               | Inr _ \<Rightarrow> Inl TypeError))
      else Inr \<lparr>notes = rs_notes st, rhythms = rs_rhythms st\<rparr>)"

text \<open>
  \<^verbatim>\<open>refine\<close> starts from \<^verbatim>\<open>ref = Part(self.notes, self.rhythms)\<close> with all counters 0 and
  returns \<^verbatim>\<open>ref\<close>. (The new part shares the list of notes with the old one when that list
  is not empty, so the insertions also reach the old part's notes; the model returns the
  new part only.)
\<close>

definition refine ::
  "(int \<Rightarrow> int \<Rightarrow> rat) \<Rightarrow> (int \<Rightarrow> rat) \<Rightarrow> bool \<Rightarrow> biases \<Rightarrow> (nat \<Rightarrow> rat) \<Rightarrow> int part
     \<Rightarrow> py_error + int part" where
  "refine pass_func aux_func end_tonic breaks rnd p =
     (case Part (notes p) (rhythms p) of
        Inl err \<Rightarrow> Inl err
      | Inr ref \<Rightarrow>
          (case refine_loop pass_func aux_func breaks rnd
                  \<lparr>rs_notes = notes ref, rs_rhythms = rhythms ref, rs_reps = 0, rs_steps = 0,
                   rs_leaps = 0, rs_note_num = 0, rs_i = 0, rs_draws = 0\<rparr> of
             Inl err \<Rightarrow> Inl err
           | Inr st \<Rightarrow>
               if end_tonic then end_on_tonic breaks rnd st
               else Inr \<lparr>notes = rs_notes st, rhythms = rs_rhythms st\<rparr>))"

text \<open>
  The loop ends: a round that visits a rest moves \<open>i\<close> forward and changes nothing else,
  and a round that visits a note consumes the pair of notes at \<open>note_num\<close>; when it
  inserts a note, the new pair it leaves ahead is closer together than the pair it
  consumed. The weight below counts, for the pairs of neighbouring notes still ahead,
  their distance (2 for a repeated note, which may receive an auxiliary note).
\<close>

fun pair_weight :: "int list \<Rightarrow> nat" where
  "pair_weight (a # b # xs) = (if a = b then 2 else nat \<bar>a - b\<bar>) + pair_weight (b # xs)"
| "pair_weight _ = 0"

section \<open>Properties\<close>

subsection \<open>Chord: helper lemmas\<close>

lemma map_sort_key_shift:
  fixes g :: "'a \<Rightarrow> int"
  shows "map (\<lambda>x. g x + r) (sort_key g xs) = sort (map (\<lambda>x. g x + r) xs)"
proof -
  have "sorted (map g (sort_key g xs))" by simp
  then have "sorted (map (\<lambda>y. y + r) (map g (sort_key g xs)))"
    by (intro sorted_map [THEN iffD2]) (auto simp: sorted_wrt_map intro: sorted_wrt_mono_rel)
  then have s: "sorted (map (\<lambda>x. g x + r) (sort_key g xs))" by (simp add: comp_def)
  have m: "mset (map (\<lambda>x. g x + r) (sort_key g xs)) = mset (map (\<lambda>x. g x + r) xs)" by simp
  from properties_for_sort [OF m s] show ?thesis by simp
qed

lemma Chord_sort:
  "Chord P = (if P = [] then Inl ValueError
     else Inr (sort (map (\<lambda>p. (p - Min (set P)) mod 7 + Min (set P)) (remdups P))))"
  by (simp add: Chord_def Let_def map_sort_key_shift)

lemma hd_sorted_Min:
  fixes c :: "int list"
  assumes "sorted c" "c \<noteq> []" shows "hd c = Min (set c)"
proof (cases c)
  case Nil with assms show ?thesis by simp
next
  case (Cons x xs)
  with assms have "\<forall>y\<in>set xs. x \<le> y" by simp
  then have "Min (set (x # xs)) = x" by (intro Min_eqI) auto
  with Cons show ?thesis by simp
qed

lemma Chord_inv:
  assumes "Chord P = Inr c" shows "chord_inv c"
proof -
  define r where "r = Min (set P)"
  define f where "f = (\<lambda>p. (p - r) mod 7 + r)"
  from assms have ne: "P \<noteq> []" and c: "c = sort (map f (remdups P))"
    by (auto simp: Chord_sort r_def f_def split: if_splits)
  have rin: "r \<in> set P" using ne by (simp add: r_def)
  have setc: "set c = f ` set P" by (simp add: c)
  have lo: "\<And>p. p \<in> set c \<Longrightarrow> r \<le> p \<and> p < r + 7" unfolding setc f_def by auto
  have "f r \<in> f ` set P" using rin by (rule imageI)
  then have rc: "r \<in> set c" unfolding setc by (simp add: f_def)
  have cne: "c \<noteq> []" using rc by auto
  have "sorted c" by (simp add: c)
  then have "hd c = Min (set c)" using cne by (rule hd_sorted_Min)
  also have "\<dots> = r" using rc by (intro Min_eqI) (auto dest: lo)
  finally have "hd c = r" .
  with lo cne show ?thesis by (simp add: chord_inv_def list_all_iff)
qed


lemma min_key_from_mem: "min_key_from f m xs \<in> insert m (set xs)"
  by (induction xs arbitrary: m) auto

lemma min_key_from_le: "f (min_key_from f m xs) \<le> f m \<and> (\<forall>x\<in>set xs. f (min_key_from f m xs) \<le> f x)"
proof (induction xs arbitrary: m)
  case Nil
  show ?case by simp
next
  case (Cons a xs)
  from Cons [of "if f a < f m then a else m"] show ?case by (auto split: if_splits)
qed

lemma min_key_mem: "xs \<noteq> [] \<Longrightarrow> min_key f xs \<in> set xs"
  using min_key_from_mem [of f "hd xs" "tl xs"] by (cases xs) (auto simp: min_key_def)

lemma min_key_le: "x \<in> set xs \<Longrightarrow> f (min_key f xs) \<le> f x"
  using min_key_from_le [of f "hd xs" "tl xs"] by (cases xs) (auto simp: min_key_def)

lemma intervals_props:
  assumes "chord_inv c"
  shows "scale_intervals c \<noteq> []" and "0 \<in> set (scale_intervals c)"
    and "\<And>x. x \<in> set (scale_intervals c) \<Longrightarrow> 0 \<le> x \<and> x < 7"
    and "\<And>x. x \<in> set (scale_intervals c) \<longleftrightarrow> hd c + x \<in> set c"
proof -
  from assms have ne: "c \<noteq> []" and b: "\<And>p. p \<in> set c \<Longrightarrow> hd c \<le> p \<and> p < hd c + 7"
    by (auto simp: chord_inv_def list_all_iff)
  show "scale_intervals c \<noteq> []" using ne by (simp add: scale_intervals_def)
  have "hd c \<in> set c" using ne by simp
  then have "hd c - hd c \<in> (\<lambda>p. p - hd c) ` set c" by (rule imageI)
  then show "0 \<in> set (scale_intervals c)" by (simp add: scale_intervals_def)
  show "\<And>x. x \<in> set (scale_intervals c) \<Longrightarrow> 0 \<le> x \<and> x < 7"
  proof -
    fix x assume "x \<in> set (scale_intervals c)"
    then obtain q where q: "q \<in> set c" "x = q - hd c" by (auto simp: scale_intervals_def)
    from b [OF q(1)] q(2) show "0 \<le> x \<and> x < 7" by simp
  qed
  show "\<And>x. x \<in> set (scale_intervals c) \<longleftrightarrow> hd c + x \<in> set c"
    by (force simp: scale_intervals_def image_iff)
qed

text \<open>The shift that nearest applies, as a function of the chosen interval.\<close>

lemma nearest_shift:
  fixes c :: chord and p :: int
  assumes inv: "chord_inv c"
  defines "m \<equiv> (p - hd c) mod 7"
  defines "x \<equiv> min_key (circ_dist m) (scale_intervals c)"
  shows "x \<in> set (scale_intervals c)"
    and "\<bar>nearest c p - p\<bar> = circ_dist m x"
    and "(nearest c p - hd c) mod 7 = x"
    and "\<bar>nearest c p - p\<bar> \<le> 3"
proof -
  note ip = intervals_props [OF inv]
  show xin: "x \<in> set (scale_intervals c)" unfolding x_def by (rule min_key_mem [OF ip(1)])
  have xb: "0 \<le> x" "x < 7" using ip(3) [OF xin] by auto
  have mb: "0 \<le> m" "m < 7" by (simp_all add: m_def)
  have "circ_dist m x \<le> circ_dist m 0" unfolding x_def by (rule min_key_le [OF ip(2)])
  then have le0: "min \<bar>x - m\<bar> (7 - \<bar>x - m\<bar>) \<le> min m (7 - m)"
    using mb by (simp add: circ_dist_def)
  have d3: "x - m \<le> 3" using le0 xb mb by linarith
  have n: "nearest c p = p + (if 7 < 2 * \<bar>x - m\<bar> then x - m + 7 else x - m)"
    by (simp add: nearest_def Let_def m_def x_def)
  have sh: "nearest c p - p = (if 7 < 2 * \<bar>x - m\<bar> then x - m + 7 else x - m)"
    by (simp add: n)
  show eq: "\<bar>nearest c p - p\<bar> = circ_dist m x"
    unfolding sh circ_dist_def using d3 xb mb by (cases "7 < 2 * \<bar>x - m\<bar>") (simp_all, arith+)
  show "\<bar>nearest c p - p\<bar> \<le> 3"
    unfolding eq circ_dist_def by simp
  have "nearest c p - hd c = p - hd c + (x - m) + 7 * (if 7 < 2 * \<bar>x - m\<bar> then 1 else 0)"
    by (simp add: n)
  then have "(nearest c p - hd c) mod 7 = (p - hd c + (x - m)) mod 7"
    by (simp only: mod_mult_self2)
  also have "\<dots> = ((p - hd c) mod 7 + (x - m)) mod 7" by (simp add: mod_add_left_eq)
  also have "\<dots> = x mod 7" by (simp add: m_def)
  also have "\<dots> = x" using xb by simp
  finally show "(nearest c p - hd c) mod 7 = x" .
qed

lemma abs_ge_circ:
  fixes z d :: int
  assumes "z mod 7 = d mod 7" "- 7 < d" "d < 7"
  shows "min \<bar>d\<bar> (7 - \<bar>d\<bar>) \<le> \<bar>z\<bar>"
proof -
  from assms(1) have "7 dvd (z - d)" by (simp add: mod_eq_dvd_iff)
  then obtain j where "z - d = 7 * j" by (rule dvdE)
  then have "z = d + 7 * j" by simp
  with assms(2,3) show ?thesis by arith
qed

lemma nearest_idem_inv:
  assumes inv: "chord_inv c"
  shows "nearest c (nearest c p) = nearest c p"
proof -
  define q where "q = nearest c p"
  define x where "x = (q - hd c) mod 7"
  note ip = intervals_props [OF inv]
  have xin: "x \<in> set (scale_intervals c)"
    using nearest_shift(1,3) [OF inv, of p] by (simp add: x_def q_def)
  define y where "y = min_key (circ_dist x) (scale_intervals c)"
  have yin: "y \<in> set (scale_intervals c)" unfolding y_def by (rule min_key_mem [OF ip(1)])
  have "circ_dist x y \<le> circ_dist x x" unfolding y_def by (rule min_key_le [OF xin])
  moreover have "0 \<le> x \<and> x < 7" "0 \<le> y \<and> y < 7" using ip(3) xin yin by auto
  ultimately have "y = x" by (simp add: circ_dist_def) arith
  then have "nearest c q = q" by (simp add: nearest_def Let_def x_def [symmetric] y_def [symmetric])
  then show ?thesis by (simp add: q_def)
qed

lemma nearest_member:
  assumes inv: "chord_inv c"
  shows "\<exists>t\<in>set c. nearest c p mod 7 = t mod 7"
proof -
  define x where "x = min_key (circ_dist ((p - hd c) mod 7)) (scale_intervals c)"
  have xin: "x \<in> set (scale_intervals c)" and e: "(nearest c p - hd c) mod 7 = x"
    using nearest_shift(1,3) [OF inv, of p] by (simp_all add: x_def)
  have t: "hd c + x \<in> set c" using intervals_props(4) [OF inv] xin by simp
  have "nearest c p mod 7 = (hd c + (nearest c p - hd c) mod 7) mod 7"
    by (simp add: mod_add_right_eq)
  then have "nearest c p mod 7 = (hd c + x) mod 7" by (simp only: e)
  with t show ?thesis by blast
qed

lemma nearest_closest:
  assumes inv: "chord_inv c" and t: "t \<in> set c" and q: "q mod 7 = t mod 7"
  shows "\<bar>nearest c p - p\<bar> \<le> \<bar>q - p\<bar>"
proof -
  define m where "m = (p - hd c) mod 7"
  define x where "x = min_key (circ_dist m) (scale_intervals c)"
  define u where "u = t - hd c"
  note ip = intervals_props [OF inv]
  have uin: "u \<in> set (scale_intervals c)" using ip(4) [of u] t by (simp add: u_def)
  have ub: "0 \<le> u \<and> u < 7" by (rule ip(3) [OF uin])
  have mb: "0 \<le> m \<and> m < 7" by (simp add: m_def)
  have "\<bar>nearest c p - p\<bar> = circ_dist m x"
    using nearest_shift(2) [OF inv, of p] by (simp add: m_def x_def)
  also have "\<dots> \<le> circ_dist m u" unfolding x_def by (rule min_key_le [OF uin])
  also have "\<dots> \<le> \<bar>q - p\<bar>"
  proof -
    have "(q - p) mod 7 = (t - p) mod 7" using q by (rule mod_diff_cong) simp
    also have "t - p = u - (p - hd c)" by (simp add: u_def)
    also have "(u - (p - hd c)) mod 7 = (u - m) mod 7" by (simp add: m_def mod_diff_right_eq)
    finally have "(q - p) mod 7 = (u - m) mod 7" .
    then show ?thesis unfolding circ_dist_def using ub mb by (intro abs_ge_circ) auto
  qed
  finally show ?thesis .
qed

lemma nearest_circ_minimal:
  assumes inv: "chord_inv c" and u: "u \<in> set (scale_intervals c)"
  shows "circ_dist ((p - hd c) mod 7) ((nearest c p - hd c) mod 7) \<le> circ_dist ((p - hd c) mod 7) u"
  using nearest_shift(3) [OF inv, of p] min_key_le [OF u] by simp

lemma Chord_shift:
  assumes ne: "P \<noteq> []" and Q: "set Q = (\<lambda>p. p + 7 * k) ` set P" and c: "Chord P = Inr c"
  shows "Chord Q = Inr (map (\<lambda>p. p + 7 * k) c)"
proof -
  define sh where "sh = (\<lambda>p::int. p + 7 * k)"
  define r where "r = Min (set P)"
  define f where "f = (\<lambda>p. (p - r) mod 7 + r)"
  define g where "g = (\<lambda>p. (p - sh r) mod 7 + sh r)"
  have Q': "set Q = sh ` set P" using Q by (simp add: sh_def)
  have qne: "Q \<noteq> []" using Q' ne by auto
  have "mono sh" by (simp add: mono_def sh_def)
  then have "sh (Min (set P)) = Min (sh ` set P)"
    using ne by (intro mono_Min_commute) auto
  then have rq: "Min (set Q) = sh r" by (simp add: Q' r_def)
  have cq: "Chord Q = Inr (sort (map g (remdups Q)))"
    using qne by (simp add: Chord_sort rq g_def)
  have cp: "c = sort (map f (remdups P))"
    using c ne by (simp add: Chord_sort r_def f_def)
  have gf: "\<And>p. g (sh p) = sh (f p)" by (simp add: g_def f_def sh_def)
  have "inj_on sh (set P)" by (simp add: inj_on_def sh_def)
  then have "image_mset sh (mset_set (set P)) = mset_set (sh ` set P)"
    by (rule image_mset_mset_set)
  moreover have "mset (remdups Q) = mset_set (set Q)" "mset (remdups P) = mset_set (set P)"
    using mset_set_set [of "remdups Q"] mset_set_set [of "remdups P"] by simp_all
  ultimately have mq: "mset (remdups Q) = image_mset sh (mset (remdups P))"
    by (simp add: Q')
  have m: "mset (map sh c) = mset (map g (remdups Q))"
    by (simp add: cp mq multiset.map_comp comp_def gf)
  have "sorted c" by (simp add: cp)
  then have s: "sorted (map sh c)"
    by (simp add: sorted_map sh_def)
  from properties_for_sort [OF m s] cq show ?thesis by (simp add: sh_def)
qed

lemma chord_eq_shift:
  assumes "c \<noteq> []"
  shows "chord_eq c (map (\<lambda>p. p + 7 * k) c)"
  using assms by (simp add: chord_eq_def hd_map list_all_iff hd_conv_nth)

lemma chord_hash_shift:
  assumes "c \<noteq> []"
  shows "chord_hash (map (\<lambda>p. p + 7 * k) c) = chord_hash c"
  using assms by (simp add: chord_hash_def hd_map Let_def)

lemma chord_eq_iff:
  assumes "c \<noteq> []" "d \<noteq> []"
  shows "chord_eq c d \<longleftrightarrow>
    length c = length d \<and> hd c mod 7 = hd d mod 7 \<and> scale_intervals c = scale_intervals d"
proof -
  have "list_all (\<lambda>i. c ! i - c ! 0 = d ! i - d ! 0) [1 ..< length c]
        \<longleftrightarrow> (\<forall>i<length c. c ! i - c ! 0 = d ! i - d ! 0)"
  proof
    assume a: "list_all (\<lambda>i. c ! i - c ! 0 = d ! i - d ! 0) [1 ..< length c]"
    show "\<forall>i<length c. c ! i - c ! 0 = d ! i - d ! 0"
    proof (intro allI impI)
      fix i assume "i < length c"
      then show "c ! i - c ! 0 = d ! i - d ! 0"
        using a by (cases "i = 0") (simp_all add: list_all_iff)
    qed
  next
    assume "\<forall>i<length c. c ! i - c ! 0 = d ! i - d ! 0"
    then show "list_all (\<lambda>i. c ! i - c ! 0 = d ! i - d ! 0) [1 ..< length c]"
      by (simp add: list_all_iff)
  qed
  moreover have "length c = length d \<Longrightarrow>
     scale_intervals c = scale_intervals d \<longleftrightarrow> (\<forall>i<length c. c ! i - c ! 0 = d ! i - d ! 0)"
  proof -
    have h: "hd c = c ! 0" "hd d = d ! 0" using assms by (simp_all add: hd_conv_nth)
    assume "length c = length d"
    then show ?thesis
      unfolding scale_intervals_def Let_def h by (simp add: list_eq_iff_nth_eq)
  qed
  ultimately show ?thesis by (auto simp: chord_eq_def)
qed

subsection \<open>Chord: construction\<close>

text \<open>
  C8 (as the code has it). Constructing a chord fails exactly when the pitch collection is
  empty, and the failure is the built-in ValueError that \<^verbatim>\<open>min\<close> raises on the empty
  set; every non-empty collection yields a chord.
\<close>

theorem Chord_fails_iff_empty:
  "(Chord P = Inl ValueError) = (P = []) \<and> (\<exists>c. Chord P = Inr c) = (P \<noteq> [])
   \<and> (\<exists>e. Chord P = Inl e \<and> e \<noteq> ValueError) = False"
  by (auto simp: Chord_sort)

text \<open>
  C8 (as stated) fails: on the empty collection the constructor raises ValueError, not the
  specification's InvalidChordError.
\<close>

theorem Chord_empty_not_InvalidChordError:
  "Chord [] = Inl ValueError \<and> Chord [] \<noteq> Inl InvalidChordError"
  by (simp add: Chord_def)

subsection \<open>Chord: nearest\<close>

text \<open>
  C5. For a chord \<open>c\<close> the constructor returns and every pitch \<open>p\<close>: \<open>nearest c p\<close> is
  congruent modulo 7 to a member of \<open>c\<close>; its interval class has minimal circular distance
  from the class of \<open>p\<close> among the intervals of \<open>c\<close>; of all integers congruent to a member
  of \<open>c\<close>, none is closer to \<open>p\<close> in absolute value (so the octave copy with the smaller
  absolute shift is the one returned); the shift is at most 3 scale steps, so with integer
  pitches a distance of half an octave does not arise; and \<open>nearest\<close> is idempotent.
\<close>

theorem nearest_minimal_idempotent:
  assumes "Chord P = Inr c"
  shows "(\<exists>t\<in>set c. nearest c p mod 7 = t mod 7)
       \<and> (\<forall>u\<in>set (scale_intervals c).
            circ_dist ((p - hd c) mod 7) ((nearest c p - hd c) mod 7)
              \<le> circ_dist ((p - hd c) mod 7) u)
       \<and> (\<forall>q. (\<exists>t\<in>set c. q mod 7 = t mod 7) \<longrightarrow> \<bar>nearest c p - p\<bar> \<le> \<bar>q - p\<bar>)
       \<and> \<bar>nearest c p - p\<bar> \<le> 3
       \<and> nearest c (nearest c p) = nearest c p"
proof -
  have inv: "chord_inv c" using assms by (rule Chord_inv)
  have a: "\<exists>t\<in>set c. nearest c p mod 7 = t mod 7" by (rule nearest_member [OF inv])
  have b: "\<forall>u\<in>set (scale_intervals c).
            circ_dist ((p - hd c) mod 7) ((nearest c p - hd c) mod 7)
              \<le> circ_dist ((p - hd c) mod 7) u"
    using nearest_circ_minimal [OF inv] by blast
  have c: "\<forall>q. (\<exists>t\<in>set c. q mod 7 = t mod 7) \<longrightarrow> \<bar>nearest c p - p\<bar> \<le> \<bar>q - p\<bar>"
    using nearest_closest [OF inv] by blast
  have d: "\<bar>nearest c p - p\<bar> \<le> 3" by (rule nearest_shift(4) [OF inv])
  have e: "nearest c (nearest c p) = nearest c p" by (rule nearest_idem_inv [OF inv])
  from a b c d e show ?thesis by blast
qed

theorem nearest_minimal_idempotent_witness:
  "Chord [5, 1, 3] = Inr [1, 3, 5]
   \<and> (\<exists>t\<in>set [1, 3, 5]. nearest [1, 3, 5] 7 mod 7 = t mod 7)
   \<and> circ_dist ((7 - 1) mod 7) ((nearest [1, 3, 5] 7 - 1) mod 7) \<le> circ_dist ((7 - 1) mod 7) 4
   \<and> \<bar>nearest [1, 3, 5] 7 - 7\<bar> \<le> \<bar>5 - 7\<bar>
   \<and> nearest [1, 3, 5] (nearest [1, 3, 5] 7) = nearest [1, 3, 5] 7"
proof -
  have h: "Chord [5, 1, 3] = Inr [1, 3, 5]" by code_simp
  note t = nearest_minimal_idempotent [OF h, of 7]
  have i: "(4::int) \<in> set (scale_intervals [1, 3, 5])" by code_simp
  have m: "\<exists>t\<in>set [1, 3, 5 :: int]. (5::int) mod 7 = t mod 7" by simp
  from t have "circ_dist ((7 - hd [1, 3, 5]) mod 7) ((nearest [1, 3, 5] 7 - hd [1, 3, 5]) mod 7)
      \<le> circ_dist ((7 - hd [1, 3, 5]) mod 7) 4"
    using i by blast
  moreover from t m have "\<bar>nearest [1, 3, 5] 7 - 7\<bar> \<le> \<bar>5 - 7\<bar>" by blast
  ultimately show ?thesis using h t by simp
qed

subsection \<open>Chord: equality and hash\<close>

text \<open>
  C6. For non-empty pitch collections \<open>P\<close> and \<open>Q\<close> both constructions succeed; if the
  pitches of \<open>Q\<close> are those of \<open>P\<close> shifted by a common multiple of 7, the two chords
  compare equal and the tuples they hash are equal; and two chords compare equal exactly
  when they have the same number of pitches, the same root modulo 7 and the same offsets
  from their roots.
\<close>

theorem chord_eq_hash_octave_invariant:
  assumes "P \<noteq> []" and "Q \<noteq> []"
  shows "\<exists>c d. Chord P = Inr c \<and> Chord Q = Inr d
     \<and> ((\<exists>k. set Q = (\<lambda>p. p + 7 * k) ` set P) \<longrightarrow> chord_eq c d \<and> chord_hash c = chord_hash d)
     \<and> (chord_eq c d \<longleftrightarrow>
          length c = length d \<and> hd c mod 7 = hd d mod 7
          \<and> scale_intervals c = scale_intervals d)"
proof -
  from assms obtain c d where c: "Chord P = Inr c" and d: "Chord Q = Inr d"
    by (auto simp: Chord_sort)
  have cne: "c \<noteq> []" and dne: "d \<noteq> []"
    using Chord_inv [OF c] Chord_inv [OF d] by (simp_all add: chord_inv_def)
  have "chord_eq c d \<and> chord_hash c = chord_hash d"
    if "set Q = (\<lambda>p. p + 7 * k) ` set P" for k
  proof -
    from Chord_shift [OF assms(1) that c] d have "d = map (\<lambda>p. p + 7 * k) c" by simp
    then show ?thesis using chord_eq_shift [OF cne, of k] chord_hash_shift [OF cne, of k] by simp
  qed
  with c d chord_eq_iff [OF cne dne] show ?thesis by blast
qed

theorem chord_eq_hash_octave_invariant_witness:
  "\<exists>c d. Chord [1, 3, 5] = Inr c \<and> Chord [12, 8, 10] = Inr d
     \<and> chord_eq c d \<and> chord_hash c = chord_hash d
     \<and> length c = length d \<and> hd c mod 7 = hd d mod 7
     \<and> scale_intervals c = scale_intervals d"
proof -
  have "set [12, 8, 10] = (\<lambda>p. p + 7 * 1) ` set [1, 3, 5 :: int]" by auto
  then have k: "\<exists>k. set [12, 8, 10] = (\<lambda>p. p + 7 * k) ` set [1, 3, 5 :: int]" by blast
  from chord_eq_hash_octave_invariant [of "[1, 3, 5]" "[12, 8, 10]"] k
  show ?thesis by auto
qed

subsection \<open>Skeleton: the pitch of a played token\<close>

text \<open>
  C4. The claim asks that a pitch below \<open>min_pitch\<close> is recomputed with the interval
  negated, as a pitch above \<open>max_pitch\<close> is. On the tonic triad, from pitch 1 with interval
  \<open>-1\<close> and the range 1 to 11, the first pitch is \<open>-2\<close>, below the range; the source
  recomputes it with the same interval and keeps \<open>-2\<close>, where the negated interval would
  give 3.
\<close>

theorem skeleton_note_too_low_keeps_sign:
  "next_pitch [1, 3, 5] 1 (- 1) = Inr (- 2)
   \<and> skeleton_note [1, 3, 5] 1 (- 1) 1 11 = Inr (- 2)
   \<and> next_pitch [1, 3, 5] 1 (- (- 1)) = Inr 3"
  by code_simp

subsection \<open>Biases\<close>

text \<open>
  C2. The claim asks that \<open>add_bias(A, w, X)\<close> succeeds on a sampler constructed with
  no biases. For every outcome, weight and condition it raises KeyError: the order-0 table
  is a plain empty dict, and the row of the condition is read before anything is stored.
\<close>

theorem add_bias_on_empty_sampler_raises:
  "add_bias (Biases []) A w [X] = Inl KeyError"
  by (simp add: add_bias_def Biases_def)

text \<open>
  C1. The claim asks that an outcome recorded only in a matching deeper row is returned
  with positive probability. With the order-0 row \<open>{0: 1}\<close> under condition 0 and the
  order-1 row \<open>{1: 1}\<close> under history \<open>(0, 0)\<close>, \<open>get(0, 0)\<close> returns nothing for any
  draw: when the order-1 row matches, the loop \<^verbatim>\<open>for k, b in self.biases\<close> unpacks the
  order-0 table, which has one key, and raises ValueError.
\<close>

theorem get_deeper_order_raises:
  "get [[(Num 0, [(Num 0, 1)])], [(Tuple [Num 0, Num 0], [(Num 1, 1)])]]
       [Num 0, Num 0] (\<lambda>n. 1) u = Inl ValueError"
proof -
  have e: "fl_add 0 1 = 1" "fl_div 1 1 = 1" "fl_add 1 1 = 2" by code_simp+
  show ?thesis by (simp add: get_def e)
qed

subsection \<open>Biases: a query with one condition\<close>

lemma bisect_le: "lo \<le> hi \<Longrightarrow> bisect a x lo hi \<le> hi"
proof (induction a x lo hi rule: bisect.induct)
  case (1 a x lo hi)
  show ?case
  proof (cases "lo < hi")
    case False
    then have "bisect a x lo hi = lo" by (subst bisect.simps) simp
    with "1.prems" show ?thesis by simp
  next
    case True
    define mid where "mid = (lo + hi) div 2"
    have m: "lo \<le> mid" "mid < hi" using True by (simp_all add: mid_def)
    show ?thesis
    proof (cases "x < a ! mid")
      case lt: True
      have "bisect a x lo hi = bisect a x lo mid"
        using True lt by (subst bisect.simps) (simp add: mid_def Let_def)
      moreover have "bisect a x lo mid \<le> mid"
        using "1.IH"(1) [OF True mid_def lt m(1)] .
      ultimately show ?thesis using m by simp
    next
      case ge: False
      have "bisect a x lo hi = bisect a x (mid + 1) hi"
        using True ge by (subst bisect.simps) (simp add: mid_def Let_def)
      moreover have "bisect a x (mid + 1) hi \<le> hi"
        using "1.IH"(2) [OF True mid_def ge] m by simp
      ultimately show ?thesis by simp
    qed
  qed
qed

lemma length_accumulate_from [simp]: "length (accumulate_from acc ws) = length ws"
  by (induction ws arbitrary: acc) auto

lemma length_accumulate [simp]: "length (accumulate ws) = length ws"
  by (cases ws) (auto simp: accumulate_def)

lemma choices_index:
  "xs \<noteq> [] \<Longrightarrow> bisect a x 0 (length xs - 1) < length xs"
  using bisect_le [of 0 "length xs - 1" a x] by (cases xs) auto

lemma choices_mem: "choices xs ws u = Inr v \<Longrightarrow> v \<in> set xs"
proof -
  assume a: "choices xs ws u = Inr v"
  then have ne: "xs \<noteq> []"
    by (auto simp: choices_def Let_def accumulate_def split: if_splits list.splits)
  from a choices_index [OF ne] show ?thesis
    by (auto simp: choices_def Let_def split: if_splits)
qed

lemma choices_total:
  assumes "xs \<noteq> []" "length ws = length xs" "0 < fl_add (last (accumulate ws)) 0"
  shows "\<exists>v\<in>set xs. choices xs ws u = Inr v"
proof -
  have "accumulate ws \<noteq> []" using assms(1,2) by (cases ws) (auto simp: accumulate_def)
  with assms choices_index [OF assms(1)] show ?thesis
    by (auto simp: choices_def Let_def)
qed

lemma blend_tables_plain_empty:
  "bs \<noteq> [] \<Longrightarrow> blend_tables [] False deg tot sm bs \<noteq> Inr probs"
  by (cases bs) (auto split: list.splits)

text \<open>A query with one condition draws from the order-0 row of that condition.\<close>

lemma get_single:
  assumes "get bs [e] deg_rate u = Inr v"
  shows "\<exists>row. bs \<noteq> [] \<and> map_of (bs ! 0) e = Some row \<and> v \<in> fst ` set row
     \<and> choices (map fst row) (map (\<lambda>p. fl_div (snd p) (foldl fl_add 0 (map snd row))) row) u = Inr v"
proof -
  have ne: "bs \<noteq> []" using assms by (auto simp: get_def)
  show ?thesis
  proof (cases "map_of (bs ! 0) e")
    case None
    have c: "choices [] [] u = (Inl IndexError :: py_error + pyval)"
      by (simp add: choices_def accumulate_def)
    have "get_loop bs deg_rate 0 [e] [] False [] 0 = Inr [] \<or>
          (\<exists>err. get_loop bs deg_rate 0 [e] [] False [] 0 = Inl err)"
      using None ne blend_tables_plain_empty [OF ne]
      by (auto simp: Let_def split: sum.splits)
    then have False using assms c by (auto simp: get_def)
    then show ?thesis ..
  next
    case (Some row)
    define sm where "sm = foldl fl_add 0 (map snd row)"
    have m: "fst \<circ> (\<lambda>(k, p). (k, fl_div p sm)) = fst"
        "snd \<circ> (\<lambda>(k, p). (k, fl_div p sm)) = (\<lambda>p. fl_div (snd p) sm)"
      by (auto simp: fun_eq_iff)
    from assms Some ne have c: "choices (map fst row) (map (\<lambda>p. fl_div (snd p) sm) row) u = Inr v"
      by (simp add: get_def Let_def m sm_def [symmetric] split: if_splits)
    from choices_mem [OF c] Some ne c show ?thesis by (simp add: sm_def)
  qed
qed

subsection \<open>Part: clip and measures\<close>

lemma map_result_in_range:
  "list_all (\<lambda>n. lo \<le> n \<and> n \<le> hi) ns \<Longrightarrow> map_result (\<lambda>n. clip_pitch n lo hi) ns = Inr ns"
  by (induction ns) (auto simp: clip_pitch_def)

text \<open>
  C9 (as the code has it). \<open>clip\<close> fails with AssertionError when
  \<open>max_pitch - min_pitch < 7\<close>; when the range spans at least 7 steps and every pitch of
  the part already lies in it, \<open>clip\<close> succeeds and leaves every pitch unchanged.
\<close>

theorem clip_assert_and_in_range:
  "(max_pitch - min_pitch < 7 \<longrightarrow> clip p min_pitch max_pitch = Inl AssertionError)
   \<and> (7 \<le> max_pitch - min_pitch
        \<and> list_all (\<lambda>n. min_pitch \<le> n \<and> n \<le> max_pitch) (notes p)
      \<longrightarrow> clip p min_pitch max_pitch = Inr p)"
  by (auto simp: clip_def map_result_in_range)

theorem clip_assert_and_in_range_witness:
  "clip \<lparr>notes = [1, 9], rhythms = ''qq''\<rparr> 1 7 = Inl AssertionError
   \<and> clip \<lparr>notes = [1, 9], rhythms = ''qq''\<rparr> 1 9 = Inr \<lparr>notes = [1, 9], rhythms = ''qq''\<rparr>"
  using clip_assert_and_in_range [of 7 1 "\<lparr>notes = [1, 9], rhythms = ''qq''\<rparr>"]
        clip_assert_and_in_range [of 9 1 "\<lparr>notes = [1, 9], rhythms = ''qq''\<rparr>"]
  by simp

text \<open>
  C9 (as stated) fails: on a range narrower than 7 steps \<open>clip\<close> raises AssertionError,
  not the specification's RangeTooNarrowError.
\<close>

theorem clip_narrow_not_RangeTooNarrowError:
  "clip \<lparr>notes = [1, 9], rhythms = ''qq''\<rparr> 1 7 = Inl AssertionError
   \<and> clip \<lparr>notes = [1, 9], rhythms = ''qq''\<rparr> 1 7 \<noteq> Inl RangeTooNarrowError"
  by code_simp

lemma measures_loop_props:
  assumes "measures_loop meter ns m_notes m_ryth ni rs = (ys, err)"
    and "\<exists>d. duration m_ryth = Inr d \<and> num_val d < num_val meter"
    and "0 < num_val meter"
  shows "(\<forall>y\<in>set ys. \<exists>d. duration (snd y) = Inr d \<and> num_val meter \<le> num_val d)
       \<and> prefix (concat (map snd ys)) (m_ryth @ rs)
       \<and> (err = None \<longrightarrow> (\<exists>rest d. m_ryth @ rs = concat (map snd ys) @ rest
                                   \<and> duration rest = Inr d \<and> num_val d < num_val meter))"
  using assms
proof (induction rs arbitrary: m_notes m_ryth ni ys err)
  case Nil
  then show ?case by auto
next
  case (Cons r rs)
  show ?case
  proof (cases "\<not> is_rest r \<and> \<not> ni < length ns")
    case True
    with Cons.prems show ?thesis by auto
  next
    case False
    define m_notes' where "m_notes' = (if is_rest r then m_notes else m_notes @ [ns ! ni])"
    define ni' where "ni' = (if is_rest r then ni else ni + 1)"
    show ?thesis
    proof (cases "duration (m_ryth @ [r])")
      case (Inl e)
      with False Cons.prems show ?thesis by (auto simp: Let_def)
    next
      case (Inr d)
      show ?thesis
      proof (cases "num_val meter \<le> num_val d")
        case True
        obtain ys' err' where rec: "measures_loop meter ns [] [] ni' rs = (ys', err')"
          by (cases "measures_loop meter ns [] [] ni' rs")
        have e: "ys = (m_notes', m_ryth @ [r]) # ys'" "err = err'"
          using Cons.prems(1) False Inr True rec
          by (auto simp: Let_def m_notes'_def ni'_def)
        have z: "\<exists>d. duration [] = Inr d \<and> num_val d < num_val meter"
          using Cons.prems(3) by (simp add: duration_def num_val_def)
        from Cons.IH [OF rec z Cons.prems(3)]
        show ?thesis using Inr True by (auto simp: e)
      next
        case nle: False
        have rec: "measures_loop meter ns m_notes' (m_ryth @ [r]) ni' rs = (ys, err)"
          using Cons.prems(1) False Inr nle by (auto simp: Let_def m_notes'_def ni'_def)
        have "\<exists>d. duration (m_ryth @ [r]) = Inr d \<and> num_val d < num_val meter"
          using Inr nle by auto
        from Cons.IH [OF rec this Cons.prems(3)] show ?thesis by simp
      qed
    qed
  qed
qed


text \<open>
  C10. For every part and every positive meter, whatever \<open>measures\<close> yields before it
  ends (normally or with an error): every yielded rhythm string has a duration of at least
  \<open>meter\<close>; the yielded rhythm strings, concatenated, are a prefix of the part's rhythm
  string; and when the generator ends normally, what remains after that prefix has a
  duration below \<open>meter\<close> and is not yielded.
\<close>

theorem measures_complete:
  assumes "0 < num_val meter" and "measures p meter = (ys, err)"
  shows "(\<forall>y\<in>set ys. \<exists>d. duration (snd y) = Inr d \<and> num_val meter \<le> num_val d)
       \<and> prefix (concat (map snd ys)) (rhythms p)
       \<and> (err = None \<longrightarrow> (\<exists>rest d. rhythms p = concat (map snd ys) @ rest
                                   \<and> duration rest = Inr d \<and> num_val d < num_val meter))"
proof -
  have z: "\<exists>d. duration [] = Inr d \<and> num_val d < num_val meter"
    using assms(1) by (simp add: duration_def num_val_def)
  from measures_loop_props [OF assms(2) [unfolded measures_def] z assms(1)]
  show ?thesis by simp
qed

theorem measures_complete_witness:
  "measures \<lparr>notes = [1, 2, 3, 4, 5, 6, 7 :: int], rhythms = ''qq_qqhqt''\<rparr> (PInt 4)
     = ([([1, 2], ''qq_''), ([3, 4, 5], ''qqh'')], None)
   \<and> duration ''qq_'' = Inr (PInt 4) \<and> duration ''qqh'' = Inr (PInt 4)
   \<and> prefix (''qq_'' @ ''qqh'') ''qq_qqhqt''
   \<and> (\<exists>rest d. ''qq_qqhqt'' = ''qq_'' @ ''qqh'' @ rest \<and> duration rest = Inr d
          \<and> num_val d < num_val (PInt 4))"
proof -
  have m: "measures \<lparr>notes = [1, 2, 3, 4, 5, 6, 7 :: int], rhythms = ''qq_qqhqt''\<rparr> (PInt 4)
     = ([([1, 2], ''qq_''), ([3, 4, 5], ''qqh'')], None)" by code_simp
  have d: "duration ''qq_'' = Inr (PInt 4)" "duration ''qqh'' = Inr (PInt 4)" by code_simp+
  have "0 < num_val (PInt 4)" by (simp add: num_val_def)
  from measures_complete [OF this m] show ?thesis using m d by simp
qed

lemma NOTE_LENS_triplets:
  "map_of NOTE_LENS CHR ''t'' = Some (PFloat (round53 (1 / 3)))
   \<and> map_of NOTE_LENS CHR ''T'' = Some (PFloat (round53 (2 / 3)))"
  by code_simp

text \<open>
  The sums are Python's: a quarter note and three triplet eighths add up to
  1.9999999999999998 beats, so they do not complete a measure of 2 beats.
\<close>

lemma measures_triplets_below_meter:
  "duration ''qttt'' = Inr (PFloat (9007199254740991 / 4503599627370496))
   \<and> measures \<lparr>notes = [1, 2, 3, 4 :: int], rhythms = ''qttt''\<rparr> (PInt 2) = ([], None)"
  by code_simp

subsection \<open>refine: the loop ends\<close>

lemma drop2: "Suc k < length xs \<Longrightarrow> drop k xs = xs ! k # xs ! Suc k # drop (Suc (Suc k)) xs"
  by (simp add: Cons_nth_drop_Suc Suc_lessD)

lemma drop_insert: "k \<le> length xs \<Longrightarrow> drop k (list_insert xs k x) = x # drop k xs"
  by (simp add: list_insert_def)

lemma refine_body_decreases:
  assumes "rs_i st < length (rs_rhythms st)" "\<not> rs_note_num st + 1 \<ge> length (rs_notes st)"
    and "refine_body pf af br rnd st = Inr st'"
  shows "pair_weight (drop (rs_note_num st') (rs_notes st')) < pair_weight (drop (rs_note_num st) (rs_notes st))
       \<or> pair_weight (drop (rs_note_num st') (rs_notes st')) = pair_weight (drop (rs_note_num st) (rs_notes st))
         \<and> length (rs_rhythms st') - rs_i st' < length (rs_rhythms st) - rs_i st"
proof -
  have k: "Suc (rs_note_num st) < length (rs_notes st)" using assms(2) by simp
  note d = drop2 [OF k]
  have d1: "drop (Suc (rs_note_num st)) (rs_notes st)
     = rs_notes st ! Suc (rs_note_num st) # drop (Suc (Suc (rs_note_num st))) (rs_notes st)"
    using k by (simp add: Cons_nth_drop_Suc)
  have di: "\<And>x. drop (Suc (rs_note_num st)) (list_insert (rs_notes st) (Suc (rs_note_num st)) x)
     = x # drop (Suc (rs_note_num st)) (rs_notes st)"
    using k by (intro drop_insert) simp
  show ?thesis
    using assms(1,3) unfolding refine_body_def Let_def
    by (auto split: if_splits sum.splits simp: d d1 di)
qed

termination refine_loop
  apply (relation "inv_image (less_than <*lex*> less_than)
          (\<lambda>(pf, af, br, rnd, st). (pair_weight (drop (rs_note_num st) (rs_notes st)),
                                        length (rs_rhythms st) - rs_i st))")
   apply (intro wf_inv_image wf_lex_prod wf_less_than)
  subgoal for pf af br rnd st st'
    using refine_body_decreases [of st pf af br rnd st'] by auto
  done

declare refine_loop.simps [simp del]

end
